theory Spec2Isabelle
  imports Main "HOL-Library.Mapping"
begin

section \<open>The availability-zone cache of pkg/providers/v1/zones.go\<close>

text \<open>
  The Go file holds one type, \<open>zoneCache\<close>, with three methods:
  \<open>getZoneDetailsByNames\<close> (the public lookup), \<open>shouldPopulateCache\<close> and
  \<open>populate\<close>. The embedding below follows them line by line.

  \<^item> Go maps are finite maps: \<open>(string, zoneDetails) mapping\<close>. A nil map and an
    allocated empty map are both \<open>Mapping.empty\<close>: the code only ever reads
    \<open>len\<close> of the map and looks keys up in it before \<open>populate\<close> replaces a
    map of length zero by a fresh one, so the two cannot be told apart.
  \<^item> The EC2 client is not part of the file. What
    \<open>z.cloud.ec2.DescribeAvailabilityZones\<close> answers when it is called is a parameter
    \<open>ec2\<close> of the functions that may call it: either an error or the list of zones.
    The elements of the list are taken to be non-nil.
  \<^item> Everything a method does besides computing its result is recorded in a list of
    events that the method returns: taking and releasing the mutex, the call to EC2,
    and the two klog calls.
\<close>

subsection \<open>Data\<close>

text \<open>The struct \<open>zoneDetails\<close> (lines 28-32). The field \<open>id\<close> is written \<open>id'\<close>.\<close>

record zoneDetails =
  name :: string
  id' :: string
  zoneType :: string

text \<open>
  The three fields of the SDK's \<open>ec2.AvailabilityZone\<close> that \<open>populate\<close> reads.
  Each is a pointer to a string; \<open>None\<close> is the nil pointer.
\<close>

record AvailabilityZone =
  ZoneName :: "string option"
  ZoneId :: "string option"
  ZoneType :: "string option"

text \<open>\<open>aws.StringValue\<close>: the string a pointer points to, the empty string for nil.\<close>

definition StringValue :: "string option \<Rightarrow> string" where
  "StringValue v = (case v of None \<Rightarrow> [] | Some s \<Rightarrow> s)"

text \<open>
  Go errors. \<open>EC2Failure msg\<close> is an error returned by the EC2 client;
  \<open>Errorf format e\<close> is the value of \<open>fmt.Errorf(format, e)\<close>, kept as the format
  and its operand (the rendering of \<open>%q\<close> is not spelled out).
\<close>

datatype error = EC2Failure string | Errorf string error

type_synonym EC2 = "error + AvailabilityZone list"

text \<open>
  The struct \<open>zoneCache\<close> (lines 34-38). The field \<open>cloud\<close> is the parameter
  \<open>ec2\<close> of the methods and the field \<open>mutex\<close> shows in the events.
\<close>

record zoneCache =
  zoneNameToDetails :: "(string, zoneDetails) mapping"

datatype event =
    MutexLock
  | MutexUnlock
  | DescribeAvailabilityZones
  | Warningf string string
  | Infof string string

subsection \<open>shouldPopulateCache (lines 71-86)\<close>

fun shouldPopulateCache_loop ::
  "(string, zoneDetails) mapping \<Rightarrow> string list \<Rightarrow> bool \<times> event list" where
  "shouldPopulateCache_loop m [] = (False, [])"
| "shouldPopulateCache_loop m (zone # rest) =
     (case Mapping.lookup m zone of
        None \<Rightarrow> (True, [Infof ''AZ %s not found in zone cache.'' zone])
      | Some _ \<Rightarrow> shouldPopulateCache_loop m rest)"

definition shouldPopulateCache :: "zoneCache \<Rightarrow> string list \<Rightarrow> bool \<times> event list" where
  "shouldPopulateCache z zoneNames =
     (if Mapping.is_empty (zoneNameToDetails z) then (True, [])
      else shouldPopulateCache_loop (zoneNameToDetails z) zoneNames)"

subsection \<open>populate (lines 91-113)\<close>

text \<open>One round of the loop of lines 103-110.\<close>

definition populate_store ::
  "AvailabilityZone \<Rightarrow> (string, zoneDetails) mapping \<Rightarrow> (string, zoneDetails) mapping" where
  "populate_store zone m =
     (let nm = StringValue (ZoneName zone)
      in Mapping.update nm
           \<lparr>name = nm, id' = StringValue (ZoneId zone), zoneType = StringValue (ZoneType zone)\<rparr>
           m)"

fun populate_loop ::
  "AvailabilityZone list \<Rightarrow> (string, zoneDetails) mapping \<Rightarrow> (string, zoneDetails) mapping" where
  "populate_loop [] m = m"
| "populate_loop (zone # zones) m = populate_loop zones (populate_store zone m)"

definition populate :: "EC2 \<Rightarrow> zoneCache \<Rightarrow> error option \<times> zoneCache \<times> event list" where
  "populate ec2 z =
     (case ec2 of
        Inl err \<Rightarrow>
          (Some (Errorf ''error describe availability zones: %q'' err), z,
           [DescribeAvailabilityZones])
      | Inr zones \<Rightarrow>
          (let z1 = (if Mapping.is_empty (zoneNameToDetails z)
                     then z\<lparr>zoneNameToDetails := Mapping.empty\<rparr> else z)
           in (None,
               z1\<lparr>zoneNameToDetails := populate_loop zones (zoneNameToDetails z1)\<rparr>,
               [DescribeAvailabilityZones])))"

subsection \<open>getZoneDetailsByNames (lines 42-68)\<close>

text \<open>The loop of lines 59-65; the third argument is \<open>requestedZoneDetails\<close>.\<close>

fun getZoneDetailsByNames_loop ::
  "(string, zoneDetails) mapping \<Rightarrow> string list \<Rightarrow> (string, zoneDetails) mapping
     \<Rightarrow> (string, zoneDetails) mapping \<times> event list" where
  "getZoneDetailsByNames_loop m [] requested = (requested, [])"
| "getZoneDetailsByNames_loop m (zone # rest) requested =
     (case Mapping.lookup m zone of
        Some zd \<Rightarrow> getZoneDetailsByNames_loop m rest (Mapping.update zone zd requested)
      | None \<Rightarrow>
          (case getZoneDetailsByNames_loop m rest requested of
             (r, evs) \<Rightarrow> (r, Warningf ''Could not find zone %s'' zone # evs)))"

definition getZoneDetailsByNames ::
  "EC2 \<Rightarrow> zoneCache \<Rightarrow> string list
     \<Rightarrow> (error + (string, zoneDetails) mapping) \<times> zoneCache \<times> event list" where
  "getZoneDetailsByNames ec2 z zoneNames =
     (if length zoneNames = 0 then (Inr Mapping.empty, z, [])
      else
        (case shouldPopulateCache z zoneNames of
           (should, evs1) \<Rightarrow>
             (case (if should then populate ec2 z else (None, z, [])) of
                (Some err, z', evs2) \<Rightarrow>
                  (Inl err, z', [MutexLock] @ evs1 @ evs2 @ [MutexUnlock])
              | (None, z', evs2) \<Rightarrow>
                  (case getZoneDetailsByNames_loop (zoneNameToDetails z') zoneNames
                          Mapping.empty of
                     (requestedZoneDetails, evs3) \<Rightarrow>
                       (Inr requestedZoneDetails, z',
                        [MutexLock] @ evs1 @ evs2 @ evs3 @ [MutexUnlock])))))"

subsection \<open>Notions used to state the properties\<close>

text \<open>The keys under which \<open>populate\<close> stores a listing (line 104).\<close>

definition zoneNamesOf :: "AvailabilityZone list \<Rightarrow> string list" where
  "zoneNamesOf zones = map (\<lambda>zone. StringValue (ZoneName zone)) zones"

text \<open>
  The two states of a cache. The code has no flag for them: it tells them apart by
  \<open>len(z.zoneNameToDetails) == 0\<close> (lines 72 and 99, "hasn't been populated yet").
\<close>

datatype cacheState = Empty | Populated

definition stateOf :: "zoneCache \<Rightarrow> cacheState" where
  "stateOf z = (if Mapping.is_empty (zoneNameToDetails z) then Empty else Populated)"

text \<open>Every entry is stored under the name it carries.\<close>

definition keyNameConsistent :: "(string, zoneDetails) mapping \<Rightarrow> bool" where
  "keyNameConsistent m \<longleftrightarrow>
     (\<forall>k \<in> Mapping.keys m. map_option name (Mapping.lookup m k) = Some k)"

text \<open>
  Modelled from the spec: the constructor of \<open>zoneCache\<close> is not in the file. The
  entries start empty at construction, which is the zero value of the struct.
\<close>

definition newZoneCache :: zoneCache where
  "newZoneCache = \<lparr>zoneNameToDetails = Mapping.empty\<rparr>"

text \<open>
  The record that a zone of a listing stands for (lines 105-109), and the record a
  listing gives for a name: that of the last zone it lists under the name, none when it
  lists no zone under it. Both are read off the listing itself.
\<close>

definition recordOf :: "AvailabilityZone \<Rightarrow> zoneDetails" where
  "recordOf zone =
     \<lparr>name = StringValue (ZoneName zone), id' = StringValue (ZoneId zone),
      zoneType = StringValue (ZoneType zone)\<rparr>"

definition listedRecord :: "AvailabilityZone list \<Rightarrow> string \<Rightarrow> zoneDetails option" where
  "listedRecord zones n =
     (let zs = filter (\<lambda>zone. StringValue (ZoneName zone) = n) zones
      in if zs = [] then None else Some (recordOf (last zs)))"

text \<open>
  The record that a sequence of listings, the most recent first, gives for a name: that
  of the most recent listing that has one.
\<close>

fun knownRecord :: "AvailabilityZone list list \<Rightarrow> string \<Rightarrow> zoneDetails option" where
  "knownRecord [] n = None"
| "knownRecord (zones # older) n =
     (case listedRecord zones n of Some zd \<Rightarrow> Some zd | None \<Rightarrow> knownRecord older n)"

text \<open>
  A cache over its lifetime. A call of \<open>getZoneDetailsByNames\<close> is given by the
  requested names and by what EC2 would answer during that call. Next to the cache,
  \<open>step\<close> keeps the listings of the calls of \<open>populate\<close> that succeeded, the most
  recent first.
\<close>

type_synonym call = "string list \<times> EC2"

definition step ::
  "zoneCache \<times> AvailabilityZone list list \<Rightarrow> call
     \<Rightarrow> zoneCache \<times> AvailabilityZone list list" where
  "step s c =
     (case s of (z, listings) \<Rightarrow>
      (case c of (zoneNames, ec2) \<Rightarrow>
       (case getZoneDetailsByNames ec2 z zoneNames of
          (res, z', evs) \<Rightarrow>
            (z', if DescribeAvailabilityZones \<in> set evs
                 then (case ec2 of Inr zones \<Rightarrow> zones # listings | Inl err \<Rightarrow> listings)
                 else listings))))"

definition run :: "call list \<Rightarrow> zoneCache \<times> AvailabilityZone list list" where
  "run calls = foldl step (newZoneCache, []) calls"

text \<open>
  The invariant as the spec words it: the entries are empty, or they are the records of
  the most recent successful listing (the same names, each with the record the listing
  gives for it).
\<close>

definition reflectsLastListing :: "zoneCache \<times> AvailabilityZone list list \<Rightarrow> bool" where
  "reflectsLastListing s =
     (case s of (z, listings) \<Rightarrow>
        Mapping.is_empty (zoneNameToDetails z) \<or>
        (case listings of
           [] \<Rightarrow> False
         | zones # older \<Rightarrow>
             Mapping.keys (zoneNameToDetails z) = set (zoneNamesOf zones) \<and>
             (\<forall>n \<in> set (zoneNamesOf zones).
                Mapping.lookup (zoneNameToDetails z) n = listedRecord zones n)))"

text \<open>Sample data: two zones as EC2 lists them, and the records made from them.\<close>

definition zoneA :: AvailabilityZone where
  "zoneA = \<lparr>ZoneName = Some ''us-east-1a'', ZoneId = Some ''use1-az1'',
            ZoneType = Some ''availability-zone''\<rparr>"

definition zoneB :: AvailabilityZone where
  "zoneB = \<lparr>ZoneName = Some ''us-east-1b'', ZoneId = Some ''use1-az2'',
            ZoneType = Some ''availability-zone''\<rparr>"

definition detailsA :: zoneDetails where
  "detailsA = \<lparr>name = ''us-east-1a'', id' = ''use1-az1'', zoneType = ''availability-zone''\<rparr>"

definition detailsB :: zoneDetails where
  "detailsB = \<lparr>name = ''us-east-1b'', id' = ''use1-az2'', zoneType = ''availability-zone''\<rparr>"

definition cacheAB :: zoneCache where
  "cacheAB =
     \<lparr>zoneNameToDetails =
        Mapping.update ''us-east-1b'' detailsB (Mapping.update ''us-east-1a'' detailsA Mapping.empty)\<rparr>"

text \<open>The first zone listed once more, under another id.\<close>

definition zoneA2 :: AvailabilityZone where
  "zoneA2 = \<lparr>ZoneName = Some ''us-east-1a'', ZoneId = Some ''use1-az4'',
             ZoneType = Some ''availability-zone''\<rparr>"

definition detailsA2 :: zoneDetails where
  "detailsA2 = \<lparr>name = ''us-east-1a'', id' = ''use1-az4'', zoneType = ''availability-zone''\<rparr>"

text \<open>
  Two calls: the first finds the cache empty and EC2 lists both zones; the second asks
  for a zone the cache lacks and EC2 lists only the first zone.
\<close>

definition twoListings :: "call list" where
  "twoListings =
     [([''us-east-1a''], Inr [zoneA, zoneB]), ([''us-east-1c''], Inr [zoneA])]"

text \<open>One call on a new cache; EC2 lists the first zone twice, under two ids.\<close>

definition repeatedListing :: "call list" where
  "repeatedListing = [([''us-east-1a''], Inr [zoneA, zoneA2])]"

section \<open>Properties\<close>

lemmas sample_defs = zoneA_def zoneB_def detailsA_def detailsB_def cacheAB_def newZoneCache_def
  zoneA2_def detailsA2_def

lemmas eval_defs = getZoneDetailsByNames_def shouldPopulateCache_def populate_def
  populate_store_def StringValue_def Let_def lookup_update'

subsection \<open>Maps\<close>

lemma is_empty_eq_empty: "Mapping.is_empty m \<longleftrightarrow> m = Mapping.empty"
proof
  assume "Mapping.is_empty m"
  then have "Mapping.keys m = {}" by (simp add: Mapping.is_empty_def)
  then have "\<And>k. Mapping.lookup m k = None"
    by (simp add: keys_dom_lookup)
  then show "m = Mapping.empty" by (intro mapping_eqI) simp
qed simp

subsection \<open>What populate writes\<close>

lemma lookup_populate_store:
  "Mapping.lookup (populate_store zone m) n =
     (if n = StringValue (ZoneName zone)
      then Some \<lparr>name = n, id' = StringValue (ZoneId zone),
                  zoneType = StringValue (ZoneType zone)\<rparr>
      else Mapping.lookup m n)"
  by (simp add: populate_store_def Let_def lookup_update')

lemma keys_populate_loop:
  "Mapping.keys (populate_loop zones m) = Mapping.keys m \<union> set (zoneNamesOf zones)"
  by (induction zones arbitrary: m) (auto simp: zoneNamesOf_def populate_store_def Let_def)

lemma lookup_populate_loop_unlisted:
  "n \<notin> set (zoneNamesOf zones) \<Longrightarrow>
     Mapping.lookup (populate_loop zones m) n = Mapping.lookup m n"
  by (induction zones arbitrary: m) (auto simp: zoneNamesOf_def lookup_populate_store)

lemma lookup_populate_loop:
  "Mapping.lookup (populate_loop zones m) n =
     (case Mapping.lookup (populate_loop zones Mapping.empty) n of
        Some zd \<Rightarrow> Some zd | None \<Rightarrow> Mapping.lookup m n)"
proof (induction zones arbitrary: m)
  case Nil
  show ?case by simp
next
  case (Cons zone zones)
  have "Mapping.lookup (populate_loop zones (populate_store zone m)) n =
     (case Mapping.lookup (populate_loop zones Mapping.empty) n of
        Some zd \<Rightarrow> Some zd | None \<Rightarrow> Mapping.lookup (populate_store zone m) n)"
    by (rule Cons.IH)
  moreover have "Mapping.lookup (populate_loop zones (populate_store zone Mapping.empty)) n =
     (case Mapping.lookup (populate_loop zones Mapping.empty) n of
        Some zd \<Rightarrow> Some zd | None \<Rightarrow> Mapping.lookup (populate_store zone Mapping.empty) n)"
    by (rule Cons.IH)
  ultimately show ?case
    by (simp add: lookup_populate_store split: option.splits)
qed

lemma lookup_populate_loop_listedRecord:
  "Mapping.lookup (populate_loop zones m) n =
     (case listedRecord zones n of Some zd \<Rightarrow> Some zd | None \<Rightarrow> Mapping.lookup m n)"
proof (induction zones arbitrary: m)
  case Nil
  show ?case by (simp add: listedRecord_def)
next
  case (Cons zone zones)
  have "Mapping.lookup (populate_loop (zone # zones) m) n =
     (case listedRecord zones n of
        Some zd \<Rightarrow> Some zd | None \<Rightarrow> Mapping.lookup (populate_store zone m) n)"
    by (simp add: Cons.IH)
  also have "\<dots> =
     (case listedRecord (zone # zones) n of
        Some zd \<Rightarrow> Some zd | None \<Rightarrow> Mapping.lookup m n)"
    by (simp add: listedRecord_def Let_def lookup_populate_store recordOf_def)
  finally show ?case .
qed

lemma populate_Inr:
  "populate (Inr zones) z =
     (None, z\<lparr>zoneNameToDetails := populate_loop zones (zoneNameToDetails z)\<rparr>,
      [DescribeAvailabilityZones])"
  by (cases "Mapping.is_empty (zoneNameToDetails z)")
     (simp_all add: populate_def Let_def is_empty_eq_empty)

lemma populate_Inl:
  "populate (Inl err) z =
     (Some (Errorf ''error describe availability zones: %q'' err), z,
      [DescribeAvailabilityZones])"
  by (simp add: populate_def)

subsection \<open>What the loops do\<close>

lemma shouldPopulateCache_loop_iff:
  "fst (shouldPopulateCache_loop m zoneNames) \<longleftrightarrow>
     (\<exists>zone \<in> set zoneNames. Mapping.lookup m zone = None)"
  by (induction zoneNames) (auto split: option.splits)

lemma getZoneDetailsByNames_loop_lookup:
  "Mapping.lookup (fst (getZoneDetailsByNames_loop m zoneNames requested)) n =
     (if n \<in> set zoneNames \<and> Mapping.lookup m n \<noteq> None then Mapping.lookup m n
      else Mapping.lookup requested n)"
  by (induction zoneNames arbitrary: requested)
     (auto simp: lookup_update' case_prod_beta split: option.splits)

lemma getZoneDetailsByNames_loop_quiet:
  "\<forall>zone \<in> set zoneNames. Mapping.lookup m zone \<noteq> None \<Longrightarrow>
     snd (getZoneDetailsByNames_loop m zoneNames requested) = []"
  by (induction zoneNames arbitrary: requested)
     (auto simp: case_prod_beta split: option.splits)

lemma shouldPopulateCache_loop_quiet:
  "\<not> fst (shouldPopulateCache_loop m zoneNames) \<Longrightarrow>
     snd (shouldPopulateCache_loop m zoneNames) = []"
  by (induction zoneNames) (auto split: option.splits)

subsection \<open>The ways through getZoneDetailsByNames\<close>

lemma getZoneDetailsByNames_nil:
  "getZoneDetailsByNames ec2 z [] = (Inr Mapping.empty, z, [])"
  by (simp add: getZoneDetailsByNames_def)

lemma getZoneDetailsByNames_hit:
  assumes "zoneNames \<noteq> []" and "\<not> fst (shouldPopulateCache z zoneNames)"
  shows "getZoneDetailsByNames ec2 z zoneNames =
           (Inr (fst (getZoneDetailsByNames_loop (zoneNameToDetails z) zoneNames Mapping.empty)),
            z,
            [MutexLock] @ snd (shouldPopulateCache z zoneNames)
              @ snd (getZoneDetailsByNames_loop (zoneNameToDetails z) zoneNames Mapping.empty)
              @ [MutexUnlock])"
  using assms by (simp add: getZoneDetailsByNames_def case_prod_beta)

lemma getZoneDetailsByNames_failed:
  assumes "zoneNames \<noteq> []" and "fst (shouldPopulateCache z zoneNames)"
  shows "getZoneDetailsByNames (Inl err) z zoneNames =
           (Inl (Errorf ''error describe availability zones: %q'' err), z,
            [MutexLock] @ snd (shouldPopulateCache z zoneNames)
              @ [DescribeAvailabilityZones, MutexUnlock])"
  using assms by (simp add: getZoneDetailsByNames_def case_prod_beta populate_Inl)

lemma getZoneDetailsByNames_refreshed:
  assumes "zoneNames \<noteq> []" and "fst (shouldPopulateCache z zoneNames)"
  shows "getZoneDetailsByNames (Inr zones) z zoneNames =
           (Inr (fst (getZoneDetailsByNames_loop
                        (populate_loop zones (zoneNameToDetails z)) zoneNames Mapping.empty)),
            z\<lparr>zoneNameToDetails := populate_loop zones (zoneNameToDetails z)\<rparr>,
            [MutexLock] @ snd (shouldPopulateCache z zoneNames) @ [DescribeAvailabilityZones]
              @ snd (getZoneDetailsByNames_loop
                        (populate_loop zones (zoneNameToDetails z)) zoneNames Mapping.empty)
              @ [MutexUnlock])"
  using assms by (simp add: getZoneDetailsByNames_def case_prod_beta populate_Inr)

lemma getZoneDetailsByNames_state:
  "fst (snd (getZoneDetailsByNames ec2 z zoneNames)) =
     (if zoneNames \<noteq> [] \<and> fst (shouldPopulateCache z zoneNames)
      then (case ec2 of
              Inl err \<Rightarrow> z
            | Inr zones \<Rightarrow> z\<lparr>zoneNameToDetails := populate_loop zones (zoneNameToDetails z)\<rparr>)
      else z)"
proof (cases "zoneNames = []")
  case True
  then show ?thesis by (simp add: getZoneDetailsByNames_nil)
next
  case ne: False
  show ?thesis
  proof (cases "fst (shouldPopulateCache z zoneNames)")
    case False
    with ne getZoneDetailsByNames_hit [OF ne False, of ec2] show ?thesis by simp
  next
    case True
    with ne getZoneDetailsByNames_failed [OF ne True] getZoneDetailsByNames_refreshed [OF ne True]
    show ?thesis by (cases ec2) simp_all
  qed
qed

lemma lookup_getZoneDetailsByNames_state:
  "Mapping.lookup (zoneNameToDetails (fst (snd (getZoneDetailsByNames ec2 z zoneNames)))) n =
     (if zoneNames \<noteq> [] \<and> fst (shouldPopulateCache z zoneNames)
      then (case ec2 of
              Inl err \<Rightarrow> Mapping.lookup (zoneNameToDetails z) n
            | Inr zones \<Rightarrow>
                (case listedRecord zones n of
                   Some zd \<Rightarrow> Some zd
                 | None \<Rightarrow> Mapping.lookup (zoneNameToDetails z) n))
      else Mapping.lookup (zoneNameToDetails z) n)"
  by (cases ec2) (simp_all add: getZoneDetailsByNames_state lookup_populate_loop_listedRecord)

lemma getZoneDetailsByNames_state_populate:
  "fst (snd (getZoneDetailsByNames ec2 z zoneNames)) =
     (if zoneNames \<noteq> [] \<and> fst (shouldPopulateCache z zoneNames)
      then fst (snd (populate ec2 z)) else z)"
  by (cases ec2) (simp_all add: getZoneDetailsByNames_state populate_Inl populate_Inr)

subsection \<open>The refresh decision\<close>

text \<open>
  C4. \<open>shouldPopulateCache\<close> answers true exactly when the cached map is empty or some
  requested name has no entry in it. So it answers true on an empty map, true when a
  requested name is absent, and false only when every requested name is present.
\<close>

theorem shouldPopulateCache_iff:
  "fst (shouldPopulateCache z zoneNames) \<longleftrightarrow>
     Mapping.is_empty (zoneNameToDetails z) \<or>
     (\<exists>zone \<in> set zoneNames. Mapping.lookup (zoneNameToDetails z) zone = None)"
  by (simp add: shouldPopulateCache_def shouldPopulateCache_loop_iff)

theorem shouldPopulateCache_iff_witness:
  "fst (shouldPopulateCache newZoneCache []) \<and>
   fst (shouldPopulateCache cacheAB [''us-east-1a'', ''us-east-1c'']) \<and>
   \<not> fst (shouldPopulateCache cacheAB [''us-east-1b'', ''us-east-1a''])"
  using shouldPopulateCache_iff [of newZoneCache "[]"]
    shouldPopulateCache_iff [of cacheAB "[''us-east-1a'', ''us-east-1c'']"]
    shouldPopulateCache_iff [of cacheAB "[''us-east-1b'', ''us-east-1a'']"]
  by (simp add: sample_defs lookup_update')

subsection \<open>The empty request\<close>

text \<open>
  C6. For the empty list of names \<open>getZoneDetailsByNames\<close> returns the empty map,
  whatever the cache holds and whatever EC2 would answer; the cache is returned as it
  was and no event happens: the mutex is not taken and EC2 is not called.
\<close>

theorem getZoneDetailsByNames_empty:
  "getZoneDetailsByNames ec2 z [] = (Inr Mapping.empty, z, [])"
  by (simp add: getZoneDetailsByNames_def)

subsection \<open>The result of a lookup\<close>

text \<open>
  C1. The cache that \<open>getZoneDetailsByNames\<close> leaves is the cache it found when no
  refresh was due, and what \<open>populate\<close> made of it otherwise: after a refresh that
  succeeded, each name of the listing has the record the listing gives for it and every
  other name has the entry it had. When the call returns a map, the map holds exactly
  the requested names that have an entry in that cache, each with the record the cache
  holds for it; a requested name without an entry is left out. The call fails only
  when a refresh was due and EC2 failed, so a name that stays unknown never makes it
  fail.
\<close>

theorem getZoneDetailsByNames_result:
  assumes "getZoneDetailsByNames ec2 z zoneNames = (res, z', evs)"
  shows "z' = (if zoneNames \<noteq> [] \<and> fst (shouldPopulateCache z zoneNames)
               then fst (snd (populate ec2 z)) else z)
         \<and> (\<forall>n. Mapping.lookup (zoneNameToDetails z') n =
                (if zoneNames \<noteq> [] \<and> fst (shouldPopulateCache z zoneNames)
                 then (case ec2 of
                         Inl err \<Rightarrow> Mapping.lookup (zoneNameToDetails z) n
                       | Inr zones \<Rightarrow>
                           (case listedRecord zones n of
                              Some zd \<Rightarrow> Some zd
                            | None \<Rightarrow> Mapping.lookup (zoneNameToDetails z) n))
                 else Mapping.lookup (zoneNameToDetails z) n))
         \<and> (\<forall>r. res = Inr r \<longrightarrow>
               (\<forall>n. Mapping.lookup r n =
                      (if n \<in> set zoneNames then Mapping.lookup (zoneNameToDetails z') n
                       else None)))
         \<and> ((\<exists>e. res = Inl e) \<longleftrightarrow>
              zoneNames \<noteq> [] \<and> fst (shouldPopulateCache z zoneNames) \<and> (\<exists>err. ec2 = Inl err))"
proof (intro conjI)
  from assms have z': "z' = fst (snd (getZoneDetailsByNames ec2 z zoneNames))" by simp
  show "z' = (if zoneNames \<noteq> [] \<and> fst (shouldPopulateCache z zoneNames)
              then fst (snd (populate ec2 z)) else z)"
    unfolding z' by (rule getZoneDetailsByNames_state_populate)
  show "\<forall>n. Mapping.lookup (zoneNameToDetails z') n =
                (if zoneNames \<noteq> [] \<and> fst (shouldPopulateCache z zoneNames)
                 then (case ec2 of
                         Inl err \<Rightarrow> Mapping.lookup (zoneNameToDetails z) n
                       | Inr zones \<Rightarrow>
                           (case listedRecord zones n of
                              Some zd \<Rightarrow> Some zd
                            | None \<Rightarrow> Mapping.lookup (zoneNameToDetails z) n))
                 else Mapping.lookup (zoneNameToDetails z) n)"
    unfolding z' by (intro allI) (rule lookup_getZoneDetailsByNames_state)
  have "(\<forall>r. res = Inr r \<longrightarrow>
            (\<forall>n. Mapping.lookup r n =
                   (if n \<in> set zoneNames then Mapping.lookup (zoneNameToDetails z') n
                    else None)))
         \<and> ((\<exists>e. res = Inl e) \<longleftrightarrow>
              zoneNames \<noteq> [] \<and> fst (shouldPopulateCache z zoneNames) \<and> (\<exists>err. ec2 = Inl err))"
  proof (cases "zoneNames = []")
    case True
    with assms show ?thesis by (auto simp: getZoneDetailsByNames_nil)
  next
    case ne: False
    show ?thesis
    proof (cases "fst (shouldPopulateCache z zoneNames)")
      case False
      from getZoneDetailsByNames_hit [OF ne False, of ec2] assms False show ?thesis
        by (auto simp: getZoneDetailsByNames_loop_lookup)
    next
      case True
      show ?thesis
      proof (cases ec2)
        case (Inl err)
        with getZoneDetailsByNames_failed [OF ne True, of err] assms ne True show ?thesis
          by auto
      next
        case (Inr zones)
        with getZoneDetailsByNames_refreshed [OF ne True, of zones] assms show ?thesis
          by (auto simp: getZoneDetailsByNames_loop_lookup)
      qed
    qed
  qed
  then show "\<forall>r. res = Inr r \<longrightarrow>
            (\<forall>n. Mapping.lookup r n =
                   (if n \<in> set zoneNames then Mapping.lookup (zoneNameToDetails z') n
                    else None))"
    and "(\<exists>e. res = Inl e) \<longleftrightarrow>
              zoneNames \<noteq> [] \<and> fst (shouldPopulateCache z zoneNames) \<and> (\<exists>err. ec2 = Inl err)"
    by blast+
qed

theorem getZoneDetailsByNames_result_witness:
  "getZoneDetailsByNames (Inr [zoneA, zoneB]) newZoneCache
       [''us-east-1a'', ''us-east-1z'', ''us-east-1a'']
     = (Inr (Mapping.update ''us-east-1a'' detailsA
               (Mapping.update ''us-east-1a'' detailsA Mapping.empty)),
        cacheAB,
        [MutexLock, DescribeAvailabilityZones,
         Warningf ''Could not find zone %s'' ''us-east-1z'', MutexUnlock])
   \<and> fst (shouldPopulateCache newZoneCache [''us-east-1a'', ''us-east-1z'', ''us-east-1a''])
   \<and> cacheAB = fst (snd (populate (Inr [zoneA, zoneB]) newZoneCache))
   \<and> listedRecord [zoneA, zoneB] ''us-east-1a'' = Some detailsA
   \<and> listedRecord [zoneA, zoneB] ''us-east-1z'' = None
   \<and> Mapping.lookup (zoneNameToDetails cacheAB) ''us-east-1a'' = Some detailsA
   \<and> Mapping.lookup (zoneNameToDetails cacheAB) ''us-east-1z'' = None
   \<and> Mapping.lookup (Mapping.update ''us-east-1a'' detailsA
               (Mapping.update ''us-east-1a'' detailsA Mapping.empty)) ''us-east-1a''
       = Mapping.lookup (zoneNameToDetails cacheAB) ''us-east-1a''
   \<and> Mapping.lookup (Mapping.update ''us-east-1a'' detailsA
               (Mapping.update ''us-east-1a'' detailsA Mapping.empty)) ''us-east-1z'' = None"
proof -
  have call: "getZoneDetailsByNames (Inr [zoneA, zoneB]) newZoneCache
       [''us-east-1a'', ''us-east-1z'', ''us-east-1a'']
     = (Inr (Mapping.update ''us-east-1a'' detailsA
               (Mapping.update ''us-east-1a'' detailsA Mapping.empty)),
        cacheAB,
        [MutexLock, DescribeAvailabilityZones,
         Warningf ''Could not find zone %s'' ''us-east-1z'', MutexUnlock])"
    by (simp add: eval_defs sample_defs)
  have due: "fst (shouldPopulateCache newZoneCache
                    [''us-east-1a'', ''us-east-1z'', ''us-east-1a''])"
    by (simp add: shouldPopulateCache_def newZoneCache_def)
  have listed: "listedRecord [zoneA, zoneB] ''us-east-1a'' = Some detailsA"
    "listedRecord [zoneA, zoneB] ''us-east-1z'' = None"
    by (simp_all add: listedRecord_def recordOf_def StringValue_def sample_defs)
  have cached: "Mapping.lookup (zoneNameToDetails cacheAB) ''us-east-1a'' = Some detailsA"
    "Mapping.lookup (zoneNameToDetails cacheAB) ''us-east-1z'' = None"
    by (simp_all add: cacheAB_def lookup_update')
  from getZoneDetailsByNames_result [OF call] due
  have "cacheAB = fst (snd (populate (Inr [zoneA, zoneB]) newZoneCache))" by simp
  with call due listed cached show ?thesis by simp
qed

subsection \<open>A failing refresh\<close>

text \<open>
  C2. When a refresh is due (the request is not empty and \<open>shouldPopulateCache\<close>
  answers true) and EC2 fails with \<open>err\<close>, \<open>populate\<close> returns
  \<open>fmt.Errorf("error describe availability zones: %q", err)\<close> and leaves the cache as
  it was; \<open>getZoneDetailsByNames\<close> returns that error and no map, leaves the cache as
  it was, and releases the mutex.
\<close>

theorem getZoneDetailsByNames_failure:
  assumes "zoneNames \<noteq> []" and "fst (shouldPopulateCache z zoneNames)"
  shows "populate (Inl err) z =
           (Some (Errorf ''error describe availability zones: %q'' err), z,
            [DescribeAvailabilityZones])
         \<and> getZoneDetailsByNames (Inl err) z zoneNames =
           (Inl (Errorf ''error describe availability zones: %q'' err), z,
            [MutexLock] @ snd (shouldPopulateCache z zoneNames)
              @ [DescribeAvailabilityZones, MutexUnlock])"
  using getZoneDetailsByNames_failed [OF assms] by (simp add: populate_Inl)

theorem getZoneDetailsByNames_failure_witness:
  "fst (shouldPopulateCache cacheAB [''us-east-1c''])
   \<and> getZoneDetailsByNames (Inl (EC2Failure ''RequestLimitExceeded'')) cacheAB [''us-east-1c''] =
       (Inl (Errorf ''error describe availability zones: %q''
               (EC2Failure ''RequestLimitExceeded'')),
        cacheAB,
        [MutexLock, Infof ''AZ %s not found in zone cache.'' ''us-east-1c'',
         DescribeAvailabilityZones, MutexUnlock])"
proof -
  have ne: "[''us-east-1c''] \<noteq> []" by simp
  have miss: "fst (shouldPopulateCache cacheAB [''us-east-1c''])"
    by (simp add: shouldPopulateCache_def cacheAB_def lookup_update')
  have evs: "snd (shouldPopulateCache cacheAB [''us-east-1c'']) =
               [Infof ''AZ %s not found in zone cache.'' ''us-east-1c'']"
    by (simp add: shouldPopulateCache_def cacheAB_def lookup_update')
  from getZoneDetailsByNames_failure [OF ne miss, of "EC2Failure ''RequestLimitExceeded''"]
    miss evs
  show ?thesis by simp
qed

subsection \<open>A successful refresh only adds\<close>

text \<open>
  C3. When EC2 answers with a listing, \<open>populate\<close> succeeds and removes nothing: every
  name that had an entry before still has one, and a name that the listing does not
  mention keeps the record it had. Only names of the listing are written.
\<close>

theorem populate_never_removes:
  assumes "populate (Inr zones) z = (err, z', evs)"
  shows "err = None \<and>
         Mapping.keys (zoneNameToDetails z) \<subseteq> Mapping.keys (zoneNameToDetails z') \<and>
         (\<forall>n. n \<notin> set (zoneNamesOf zones) \<longrightarrow>
              Mapping.lookup (zoneNameToDetails z') n = Mapping.lookup (zoneNameToDetails z) n)"
  using assms by (auto simp: populate_Inr keys_populate_loop lookup_populate_loop_unlisted)

theorem populate_never_removes_witness:
  "populate (Inr [zoneA]) cacheAB = (None, cacheAB, [DescribeAvailabilityZones])
   \<and> Mapping.lookup (zoneNameToDetails cacheAB) ''us-east-1b'' = Some detailsB
   \<and> ''us-east-1b'' \<notin> set (zoneNamesOf [zoneA])"
proof -
  have upd: "Mapping.update ''us-east-1a'' detailsA (zoneNameToDetails cacheAB)
               = zoneNameToDetails cacheAB"
    by (rule mapping_eqI) (auto simp: cacheAB_def lookup_update')
  have call: "populate (Inr [zoneA]) cacheAB = (None, cacheAB, [DescribeAvailabilityZones])"
    using upd by (simp add: populate_Inr populate_store_def StringValue_def zoneA_def
        flip: detailsA_def)
  from populate_never_removes [OF call] call show ?thesis
    by (simp add: cacheAB_def zoneNamesOf_def zoneA_def StringValue_def)
qed

subsection \<open>A request the cache can answer\<close>

text \<open>
  C7. When the request is not empty and every requested name has an entry,
  \<open>getZoneDetailsByNames\<close> does not call EC2 and leaves the cache as it was: it takes
  the mutex, releases it, and does nothing else.
\<close>

theorem getZoneDetailsByNames_cached:
  assumes "zoneNames \<noteq> []"
    and "\<forall>zone \<in> set zoneNames. Mapping.lookup (zoneNameToDetails z) zone \<noteq> None"
    and "getZoneDetailsByNames ec2 z zoneNames = (res, z', evs)"
  shows "DescribeAvailabilityZones \<notin> set evs \<and> z' = z \<and> evs = [MutexLock, MutexUnlock]"
proof -
  from assms(1) obtain zone where "zone \<in> set zoneNames" by (cases zoneNames) auto
  with assms(2) have "Mapping.lookup (zoneNameToDetails z) zone \<noteq> None" by blast
  then have "\<not> Mapping.is_empty (zoneNameToDetails z)"
    by (auto simp: is_empty_eq_empty)
  with assms(2) have no: "\<not> fst (shouldPopulateCache z zoneNames)"
    by (simp add: shouldPopulateCache_def shouldPopulateCache_loop_iff)
  then have "snd (shouldPopulateCache z zoneNames) = []"
    by (simp add: shouldPopulateCache_def shouldPopulateCache_loop_quiet split: if_splits)
  with getZoneDetailsByNames_hit [OF assms(1) no, of ec2] assms(3)
    getZoneDetailsByNames_loop_quiet [OF assms(2), of Mapping.empty]
  show ?thesis by auto
qed

theorem getZoneDetailsByNames_cached_witness:
  "getZoneDetailsByNames (Inl (EC2Failure ''RequestLimitExceeded'')) cacheAB
       [''us-east-1b'', ''us-east-1b'']
     = (Inr (Mapping.update ''us-east-1b'' detailsB
               (Mapping.update ''us-east-1b'' detailsB Mapping.empty)),
        cacheAB, [MutexLock, MutexUnlock])
   \<and> DescribeAvailabilityZones \<notin> set [MutexLock, MutexUnlock]"
proof -
  have ne: "[''us-east-1b'', ''us-east-1b''] \<noteq> []" by simp
  have known: "\<forall>zone \<in> set [''us-east-1b'', ''us-east-1b''].
                 Mapping.lookup (zoneNameToDetails cacheAB) zone \<noteq> None"
    by (simp add: cacheAB_def)
  have call: "getZoneDetailsByNames (Inl (EC2Failure ''RequestLimitExceeded'')) cacheAB
       [''us-east-1b'', ''us-east-1b'']
     = (Inr (Mapping.update ''us-east-1b'' detailsB
               (Mapping.update ''us-east-1b'' detailsB Mapping.empty)),
        cacheAB, [MutexLock, MutexUnlock])"
    by (simp add: eval_defs cacheAB_def)
  from getZoneDetailsByNames_cached [OF ne known call] call show ?thesis by simp
qed

subsection \<open>States\<close>

lemma is_empty_populate_loop:
  "Mapping.is_empty (populate_loop zones m) \<longleftrightarrow> zones = [] \<and> Mapping.is_empty m"
  by (auto simp: Mapping.is_empty_def keys_populate_loop zoneNamesOf_def)

lemma stateOf_populate_loop:
  "stateOf (z\<lparr>zoneNameToDetails := populate_loop zones (zoneNameToDetails z)\<rparr>) =
     (if zones = [] then stateOf z else Populated)"
  by (simp add: stateOf_def is_empty_populate_loop)

text \<open>
  C8 (amended). With the states \<open>Empty\<close> and \<open>Populated\<close> read off the cached
  map: a failed \<open>populate\<close> leaves the cache, and so its state, as it was; a
  successful \<open>populate\<close> whose listing is not empty ends in \<open>Populated\<close>; a
  successful \<open>populate\<close> whose listing is empty leaves the state as it was. No
  \<open>populate\<close> and no call of \<open>getZoneDetailsByNames\<close> leads from \<open>Populated\<close>
  back to \<open>Empty\<close>.
\<close>

theorem populate_state_transitions:
  assumes "populate ec2 z = (err, z', evs)"
  shows "(case ec2 of
            Inl e \<Rightarrow> err \<noteq> None \<and> z' = z
          | Inr zones \<Rightarrow>
              err = None \<and> stateOf z' = (if zones = [] then stateOf z else Populated))
         \<and> (stateOf z = Populated \<longrightarrow>
              stateOf (fst (snd (getZoneDetailsByNames ec2' z zoneNames))) = Populated)"
proof
  show "case ec2 of
            Inl e \<Rightarrow> err \<noteq> None \<and> z' = z
          | Inr zones \<Rightarrow>
              err = None \<and> stateOf z' = (if zones = [] then stateOf z else Populated)"
    using assms by (cases ec2) (auto simp: populate_Inl populate_Inr stateOf_populate_loop)
  show "stateOf z = Populated \<longrightarrow>
          stateOf (fst (snd (getZoneDetailsByNames ec2' z zoneNames))) = Populated"
    by (cases ec2') (simp_all add: getZoneDetailsByNames_state stateOf_populate_loop)
qed

theorem populate_state_transitions_witness:
  "stateOf newZoneCache = Empty
   \<and> populate (Inr [zoneA, zoneB]) newZoneCache = (None, cacheAB, [DescribeAvailabilityZones])
   \<and> stateOf cacheAB = Populated
   \<and> populate (Inl (EC2Failure ''RequestLimitExceeded'')) cacheAB =
       (Some (Errorf ''error describe availability zones: %q''
                (EC2Failure ''RequestLimitExceeded'')),
        cacheAB, [DescribeAvailabilityZones])
   \<and> stateOf (fst (snd (getZoneDetailsByNames (Inr []) cacheAB [''us-east-1c'']))) = Populated"
proof -
  have first: "populate (Inr [zoneA, zoneB]) newZoneCache =
                 (None, cacheAB, [DescribeAvailabilityZones])"
    by (simp add: eval_defs sample_defs)
  have failed: "populate (Inl (EC2Failure ''RequestLimitExceeded'')) cacheAB =
       (Some (Errorf ''error describe availability zones: %q''
                (EC2Failure ''RequestLimitExceeded'')),
        cacheAB, [DescribeAvailabilityZones])"
    by (simp add: populate_def)
  have "stateOf newZoneCache = Empty"
    by (simp add: stateOf_def newZoneCache_def)
  moreover have "stateOf cacheAB = Populated"
    by (simp add: stateOf_def cacheAB_def)
  ultimately show ?thesis
    using populate_state_transitions [OF first]
      populate_state_transitions [OF failed, of "Inr []" "[''us-east-1c'']"] first failed
    by simp
qed

text \<open>
  A successful \<open>populate\<close> need not leave \<open>Empty\<close>: when EC2 lists no zone, the
  new cache takes the listing without error and is as empty as before, and the lookup
  that asked for it succeeds with an empty map.
\<close>

theorem populate_empty_listing_counterexample:
  "stateOf newZoneCache = Empty
   \<and> fst (populate (Inr []) newZoneCache) = None
   \<and> stateOf (fst (snd (populate (Inr []) newZoneCache))) \<noteq> Populated
   \<and> getZoneDetailsByNames (Inr []) newZoneCache [''us-east-1a''] =
       (Inr Mapping.empty, newZoneCache,
        [MutexLock, DescribeAvailabilityZones,
         Warningf ''Could not find zone %s'' ''us-east-1a'', MutexUnlock])"
  by (simp add: eval_defs stateOf_def newZoneCache_def)

subsection \<open>Runs\<close>

lemma no_Describe_shouldPopulateCache:
  "DescribeAvailabilityZones \<notin> set (snd (shouldPopulateCache z zoneNames))"
proof -
  have "DescribeAvailabilityZones \<notin> set (snd (shouldPopulateCache_loop m zoneNames))" for m
    by (induction zoneNames) (auto split: option.splits)
  then show ?thesis by (simp add: shouldPopulateCache_def)
qed

lemma no_Describe_getZoneDetailsByNames_loop:
  "DescribeAvailabilityZones \<notin> set (snd (getZoneDetailsByNames_loop m zoneNames requested))"
  by (induction zoneNames arbitrary: requested)
     (auto simp: case_prod_beta split: option.splits)

lemma step_eq:
  "step (z, listings) (zoneNames, ec2) =
     (if zoneNames \<noteq> [] \<and> fst (shouldPopulateCache z zoneNames)
      then (case ec2 of
              Inl err \<Rightarrow> (z, listings)
            | Inr zones \<Rightarrow>
                (z\<lparr>zoneNameToDetails := populate_loop zones (zoneNameToDetails z)\<rparr>,
                 zones # listings))
      else (z, listings))"
proof (cases "zoneNames = []")
  case True
  then show ?thesis by (simp add: step_def getZoneDetailsByNames_nil)
next
  case ne: False
  show ?thesis
  proof (cases "fst (shouldPopulateCache z zoneNames)")
    case False
    with ne getZoneDetailsByNames_hit [OF ne False, of ec2] show ?thesis
      by (simp add: step_def no_Describe_shouldPopulateCache
          no_Describe_getZoneDetailsByNames_loop)
  next
    case True
    with ne getZoneDetailsByNames_failed [OF ne True] getZoneDetailsByNames_refreshed [OF ne True]
    show ?thesis by (cases ec2) (simp_all add: step_def)
  qed
qed

lemma run_snoc: "run (calls @ [c]) = step (run calls) c"
  by (simp add: run_def)

lemma lookup_step:
  assumes "\<And>n. Mapping.lookup (zoneNameToDetails (fst s)) n = knownRecord (snd s) n"
  shows "Mapping.lookup (zoneNameToDetails (fst (step s c))) n = knownRecord (snd (step s c)) n"
proof -
  obtain z listings where s: "s = (z, listings)" by (cases s)
  obtain zoneNames ec2 where c: "c = (zoneNames, ec2)" by (cases c)
  from assms have old: "Mapping.lookup (zoneNameToDetails z) n = knownRecord listings n"
    by (simp add: s)
  show ?thesis
  proof (cases "zoneNames \<noteq> [] \<and> fst (shouldPopulateCache z zoneNames)")
    case False
    with old show ?thesis by (auto simp: s c step_eq)
  next
    case refresh: True
    show ?thesis
    proof (cases ec2)
      case (Inl err)
      with old show ?thesis by (simp add: s c step_eq)
    next
      case (Inr zones)
      with refresh have "step s c =
          (z\<lparr>zoneNameToDetails := populate_loop zones (zoneNameToDetails z)\<rparr>,
           zones # listings)"
        by (simp add: s c step_eq)
      with old show ?thesis
        by (simp add: lookup_populate_loop_listedRecord split: option.splits)
    qed
  qed
qed

lemma lookup_run:
  "Mapping.lookup (zoneNameToDetails (fst (run calls))) n = knownRecord (snd (run calls)) n"
proof (induction calls arbitrary: n rule: rev_induct)
  case Nil
  show ?case by (simp add: run_def newZoneCache_def)
next
  case (snoc c calls)
  show ?case unfolding run_snoc by (rule lookup_step) (rule snoc.IH)
qed

text \<open>
  C5 (amended). In every state a cache can reach from its construction, the entries
  are exactly what the successful listings so far give, a later listing overriding an
  earlier one: a name has an entry when some successful listing lists a zone under it,
  and the entry is the record of the last such zone in the most recent such listing.
  So the entries are empty as long as no \<open>populate\<close> has succeeded; after that, each
  name of the most recent successful listing has the record that listing gives for it,
  and every other name has what the earlier listings give for it.
\<close>

theorem run_entries:
  "Mapping.lookup (zoneNameToDetails (fst (run calls))) n = knownRecord (snd (run calls)) n
   \<and> (snd (run calls) = [] \<longrightarrow> Mapping.is_empty (zoneNameToDetails (fst (run calls))))
   \<and> (\<forall>zones older. snd (run calls) = zones # older \<longrightarrow>
         Mapping.lookup (zoneNameToDetails (fst (run calls))) n =
           (case listedRecord zones n of
              Some zd \<Rightarrow> Some zd
            | None \<Rightarrow> knownRecord older n))"
proof (intro conjI impI allI)
  show "Mapping.lookup (zoneNameToDetails (fst (run calls))) n = knownRecord (snd (run calls)) n"
    by (rule lookup_run)
next
  assume none: "snd (run calls) = []"
  have "Mapping.lookup (zoneNameToDetails (fst (run calls))) k = Mapping.lookup Mapping.empty k"
    for k by (simp add: lookup_run none)
  then have "zoneNameToDetails (fst (run calls)) = Mapping.empty" by (rule mapping_eqI)
  then show "Mapping.is_empty (zoneNameToDetails (fst (run calls)))" by simp
next
  fix zones older
  assume "snd (run calls) = zones # older"
  then show "Mapping.lookup (zoneNameToDetails (fst (run calls))) n =
           (case listedRecord zones n of
              Some zd \<Rightarrow> Some zd
            | None \<Rightarrow> knownRecord older n)"
    by (simp add: lookup_run)
qed

lemma step_twoListings_1:
  "step (newZoneCache, []) ([''us-east-1a''], Inr [zoneA, zoneB]) =
     (cacheAB, [[zoneA, zoneB]])"
  by (simp add: step_def eval_defs sample_defs)

lemma step_twoListings_2:
  "step (cacheAB, [[zoneA, zoneB]]) ([''us-east-1c''], Inr [zoneA]) =
     (\<lparr>zoneNameToDetails =
         Mapping.update ''us-east-1a'' detailsA
           (Mapping.update ''us-east-1b'' detailsB
             (Mapping.update ''us-east-1a'' detailsA Mapping.empty))\<rparr>,
      [[zoneA], [zoneA, zoneB]])"
  by (simp add: step_def eval_defs sample_defs)

lemma run_twoListings:
  "run twoListings =
     (\<lparr>zoneNameToDetails =
         Mapping.update ''us-east-1a'' detailsA
           (Mapping.update ''us-east-1b'' detailsB
             (Mapping.update ''us-east-1a'' detailsA Mapping.empty))\<rparr>,
      [[zoneA], [zoneA, zoneB]])"
  by (simp add: run_def twoListings_def step_twoListings_1 step_twoListings_2)

lemma run_repeatedListing:
  "run repeatedListing =
     (\<lparr>zoneNameToDetails =
         Mapping.update ''us-east-1a'' detailsA2
           (Mapping.update ''us-east-1a'' detailsA Mapping.empty)\<rparr>,
      [[zoneA, zoneA2]])"
  by (simp add: run_def repeatedListing_def step_def eval_defs sample_defs)

theorem run_entries_witness:
  "snd (run twoListings) = [[zoneA], [zoneA, zoneB]]
   \<and> listedRecord [zoneA] ''us-east-1b'' = None
   \<and> knownRecord [[zoneA, zoneB]] ''us-east-1b'' = Some detailsB
   \<and> Mapping.lookup (zoneNameToDetails (fst (run twoListings))) ''us-east-1b'' = Some detailsB
   \<and> snd (run repeatedListing) = [[zoneA, zoneA2]]
   \<and> listedRecord [zoneA, zoneA2] ''us-east-1a'' = Some detailsA2
   \<and> Mapping.lookup (zoneNameToDetails (fst (run repeatedListing))) ''us-east-1a'' = Some detailsA2
   \<and> snd (run []) = []
   \<and> Mapping.is_empty (zoneNameToDetails (fst (run [])))"
proof -
  have listed: "listedRecord [zoneA] ''us-east-1b'' = None"
    "listedRecord [zoneA, zoneB] ''us-east-1b'' = Some detailsB"
    "listedRecord [zoneA, zoneA2] ''us-east-1a'' = Some detailsA2"
    by (simp_all add: listedRecord_def recordOf_def StringValue_def sample_defs)
  have start: "snd (run []) = []" by (simp add: run_def)
  from run_entries [of twoListings "''us-east-1b''"]
    run_entries [of repeatedListing "''us-east-1a''"]
    run_entries [of "[]" "''us-east-1a''"] listed start
  show ?thesis by (simp add: run_twoListings run_repeatedListing)
qed

text \<open>
  The entries need not be equal to the most recent successful listing: after the two
  calls of \<open>twoListings\<close> the cache still holds the second zone, which the most
  recent listing lacks.
\<close>

theorem run_reflectsLastListing_counterexample:
  "\<not> reflectsLastListing (run twoListings)"
proof
  assume "reflectsLastListing (run twoListings)"
  then have "Mapping.keys (Mapping.update ''us-east-1a'' detailsA
           (Mapping.update ''us-east-1b'' detailsB
             (Mapping.update ''us-east-1a'' detailsA Mapping.empty)))
         = set (zoneNamesOf [zoneA])"
    by (simp add: run_twoListings reflectsLastListing_def)
  then have "''us-east-1b'' \<in> set (zoneNamesOf [zoneA])" by auto
  then show False
    by (simp add: zoneNamesOf_def StringValue_def zoneA_def)
qed

subsection \<open>Keys and names\<close>

lemma keyNameConsistent_iff:
  "keyNameConsistent m \<longleftrightarrow> (\<forall>k zd. Mapping.lookup m k = Some zd \<longrightarrow> name zd = k)"
proof
  assume c: "keyNameConsistent m"
  show "\<forall>k zd. Mapping.lookup m k = Some zd \<longrightarrow> name zd = k"
  proof (intro allI impI)
    fix k zd
    assume l: "Mapping.lookup m k = Some zd"
    then have "k \<in> Mapping.keys m" by (simp add: keys_dom_lookup domI)
    with c have "map_option name (Mapping.lookup m k) = Some k"
      by (simp add: keyNameConsistent_def)
    with l show "name zd = k" by simp
  qed
next
  assume "\<forall>k zd. Mapping.lookup m k = Some zd \<longrightarrow> name zd = k"
  then show "keyNameConsistent m"
    by (auto simp: keyNameConsistent_def dest!: in_keysD)
qed

lemma keyNameConsistent_populate_loop:
  "keyNameConsistent m \<Longrightarrow> keyNameConsistent (populate_loop zones m)"
proof (induction zones arbitrary: m)
  case Nil
  then show ?case by simp
next
  case (Cons zone zones)
  from Cons.prems have "keyNameConsistent (populate_store zone m)"
    by (auto simp: keyNameConsistent_iff lookup_populate_store split: if_splits)
  then show ?case by (simp add: Cons.IH)
qed

lemma keyNameConsistent_getZoneDetailsByNames_loop:
  "keyNameConsistent m \<Longrightarrow>
     keyNameConsistent (fst (getZoneDetailsByNames_loop m zoneNames Mapping.empty))"
  by (auto simp: keyNameConsistent_iff getZoneDetailsByNames_loop_lookup split: if_splits)

lemma keyNameConsistent_step:
  "keyNameConsistent (zoneNameToDetails (fst s)) \<Longrightarrow>
     keyNameConsistent (zoneNameToDetails (fst (step s c)))"
  by (cases s; cases c)
     (auto simp: step_eq keyNameConsistent_populate_loop split: sum.splits)

lemma keyNameConsistent_result:
  assumes "keyNameConsistent (zoneNameToDetails z)"
    and "fst (getZoneDetailsByNames ec2 z zoneNames) = Inr r"
  shows "keyNameConsistent r"
proof (cases "zoneNames = []")
  case True
  with assms(2) show ?thesis
    by (auto simp: getZoneDetailsByNames_nil keyNameConsistent_iff)
next
  case ne: False
  show ?thesis
  proof (cases "fst (shouldPopulateCache z zoneNames)")
    case False
    from getZoneDetailsByNames_hit [OF ne False, of ec2] assms show ?thesis
      by (auto simp: keyNameConsistent_getZoneDetailsByNames_loop)
  next
    case True
    show ?thesis
    proof (cases ec2)
      case (Inl err)
      with getZoneDetailsByNames_failed [OF ne True, of err] assms show ?thesis by simp
    next
      case (Inr zones)
      with getZoneDetailsByNames_refreshed [OF ne True, of zones] assms show ?thesis
        by (auto simp: keyNameConsistent_getZoneDetailsByNames_loop
            keyNameConsistent_populate_loop)
    qed
  qed
qed

text \<open>
  C10. In every state a cache can reach from its construction, each entry is stored
  under the name its record carries. Every call of \<open>getZoneDetailsByNames\<close>, with or
  without a refresh, keeps this, and the map a call returns has the same property.
\<close>

theorem keyNameConsistent_invariant:
  "keyNameConsistent (zoneNameToDetails (fst (run calls)))
   \<and> (keyNameConsistent (zoneNameToDetails z) \<longrightarrow>
        keyNameConsistent (zoneNameToDetails (fst (snd (getZoneDetailsByNames ec2 z zoneNames))))
        \<and> (\<forall>r. fst (getZoneDetailsByNames ec2 z zoneNames) = Inr r \<longrightarrow> keyNameConsistent r))"
proof (intro conjI impI allI)
  show "keyNameConsistent (zoneNameToDetails (fst (run calls)))"
  proof (induction calls rule: rev_induct)
    case Nil
    show ?case by (simp add: run_def newZoneCache_def keyNameConsistent_def)
  next
    case (snoc c calls)
    then show ?case by (simp add: run_snoc keyNameConsistent_step)
  qed
next
  assume "keyNameConsistent (zoneNameToDetails z)"
  then show "keyNameConsistent
               (zoneNameToDetails (fst (snd (getZoneDetailsByNames ec2 z zoneNames))))"
    by (cases ec2) (simp_all add: getZoneDetailsByNames_state keyNameConsistent_populate_loop)
next
  fix r
  assume "keyNameConsistent (zoneNameToDetails z)"
    and "fst (getZoneDetailsByNames ec2 z zoneNames) = Inr r"
  then show "keyNameConsistent r" by (rule keyNameConsistent_result)
qed

theorem keyNameConsistent_invariant_witness:
  "keyNameConsistent (zoneNameToDetails (fst (run twoListings)))
   \<and> keyNameConsistent (zoneNameToDetails cacheAB)
   \<and> fst (getZoneDetailsByNames (Inr [zoneA]) cacheAB [''us-east-1b'']) =
       Inr (Mapping.update ''us-east-1b'' detailsB Mapping.empty)
   \<and> keyNameConsistent (Mapping.update ''us-east-1b'' detailsB Mapping.empty)"
proof -
  have cons: "keyNameConsistent (zoneNameToDetails cacheAB)"
    by (simp add: keyNameConsistent_def cacheAB_def detailsA_def detailsB_def lookup_update')
  have call: "fst (getZoneDetailsByNames (Inr [zoneA]) cacheAB [''us-east-1b'']) =
       Inr (Mapping.update ''us-east-1b'' detailsB Mapping.empty)"
    by (simp add: eval_defs cacheAB_def)
  from keyNameConsistent_invariant [of twoListings cacheAB "Inr [zoneA]" "[''us-east-1b'']"]
    cons call
  show ?thesis by simp
qed

end
